theory Spec2Isabelle
  imports Complex_Main
begin

section \<open>Neighbor joining and Newick serialization (cmcm2019/contracts.py)\<close>

text \<open>
  Distances are Python numbers (floats in \<open>main\<close>). The functions below take the
  arithmetic as a parameter: a record of the operations the source applies to distances,
  over any type of values. Nothing is assumed of these operations, so what is proved
  for every such record holds whatever the rounding; \<open>rat_arith\<close> is the exact
  arithmetic of the rationals, used to run the functions on inputs whose values the
  floats represent exactly.

  Dictionaries are partial maps; a lookup of a missing key, an out-of-range list index,
  a failed \<open>list.remove\<close> or tuple unpacking and a division by zero are the error values
  the interpreter would raise. The rows of the distance dictionary are taken to be
  distinct objects (as \<open>main\<close> builds them), so the store is passed by value.
\<close>

subsection \<open>Errors and loops that may raise\<close>

datatype error = KeyError | IndexError | ValueError | ZeroDivisionError | RecursionError

fun ebind :: "error + 'a \<Rightarrow> ('a \<Rightarrow> error + 'b) \<Rightarrow> error + 'b" where
  "ebind (Inl e) f = Inl e"
| "ebind (Inr v) f = f v"

text \<open>\<open>for x in xs: body\<close> over a loop state; the first error leaves the loop.\<close>

fun for_each :: "'a list \<Rightarrow> ('a \<Rightarrow> 's \<Rightarrow> error + 's) \<Rightarrow> 's \<Rightarrow> error + 's" where
  "for_each [] body s = Inr s"
| "for_each (x # xs) body s = ebind (body x s) (for_each xs body)"

definition lookup :: "('k \<rightharpoonup> 'v) \<Rightarrow> 'k \<Rightarrow> error + 'v" where
  "lookup m key = (case m key of None \<Rightarrow> Inl KeyError | Some v \<Rightarrow> Inr v)"

definition py_index :: "'a list \<Rightarrow> nat \<Rightarrow> error + 'a" where
  "py_index xs i = (if i < length xs then Inr (xs ! i) else Inl IndexError)"

definition py_remove :: "'a \<Rightarrow> 'a list \<Rightarrow> error + 'a list" where
  "py_remove x xs = (if x \<in> set xs then Inr (remove1 x xs) else Inl ValueError)"

subsection \<open>The arithmetic of distances\<close>

text \<open>
  \<open>f_int\<close> is the conversion of a Python int (the literals \<open>0\<close>, \<open>1\<close>, \<open>2\<close> and
  \<open>len(L) - 2\<close>), \<open>f_less\<close> the comparison \<open><\<close>, \<open>f_fmt6\<close> the text of
  \<open>"{:.6f}".format(x)\<close>.
\<close>

record 'f arith =
  f_add :: "'f \<Rightarrow> 'f \<Rightarrow> 'f"
  f_sub :: "'f \<Rightarrow> 'f \<Rightarrow> 'f"
  f_mul :: "'f \<Rightarrow> 'f \<Rightarrow> 'f"
  f_div :: "'f \<Rightarrow> 'f \<Rightarrow> 'f"
  f_less :: "'f \<Rightarrow> 'f \<Rightarrow> bool"
  f_int :: "int \<Rightarrow> 'f"
  f_fmt6 :: "'f \<Rightarrow> string"

text \<open>\<open>x / c\<close> for an int \<open>c\<close>.\<close>

definition py_div :: "'f arith \<Rightarrow> 'f \<Rightarrow> int \<Rightarrow> error + 'f" where
  "py_div ar x c = (if c = 0 then Inl ZeroDivisionError else Inr (f_div ar x (f_int ar c)))"

text \<open>\<open>(1 / 2) * x\<close>\<close>

definition half_of :: "'f arith \<Rightarrow> 'f \<Rightarrow> 'f" where
  "half_of ar x = f_mul ar (f_div ar (f_int ar 1) (f_int ar 2)) x"

subsection \<open>The distance store: a dictionary of dictionaries\<close>

type_synonym 'f row = "nat \<rightharpoonup> 'f"
type_synonym 'f store = "nat \<rightharpoonup> 'f row"

text \<open>\<open>d[i][j]\<close> read and \<open>d[i][j] = v\<close> written.\<close>

definition get2 :: "'f store \<Rightarrow> nat \<Rightarrow> nat \<Rightarrow> error + 'f" where
  "get2 d i j = ebind (lookup d i) (\<lambda>r. lookup r j)"

definition set2 :: "'f store \<Rightarrow> nat \<Rightarrow> nat \<Rightarrow> 'f \<Rightarrow> error + 'f store" where
  "set2 d i j v = ebind (lookup d i) (\<lambda>r. Inr (d(i \<mapsto> r(j \<mapsto> v))))"

text \<open>\<open>{i: 0 for i in range(n)}\<close>\<close>

definition zeros :: "'f arith \<Rightarrow> nat \<Rightarrow> 'f row" where
  "zeros ar n = (\<lambda>i. if i < n then Some (f_int ar 0) else None)"

text \<open>The store \<open>main\<close> builds from a full matrix: \<open>d[i][j] = m[i][j]\<close>.\<close>

definition mk_row :: "'f list \<Rightarrow> 'f row" where
  "mk_row xs = (\<lambda>j. if j < length xs then Some (xs ! j) else None)"

definition mk_store :: "'f list list \<Rightarrow> 'f store" where
  "mk_store m = (\<lambda>i. if i < length m then Some (mk_row (m ! i)) else None)"

subsection \<open>neighbor\_join\<close>

record 'f nj_state =
  st_L :: "nat list"
  st_edges :: "(nat \<times> nat) list"
  st_d :: "'f store"
  st_k :: nat

text \<open>\<open>r[i] += d[i][j] / (len(L) - 2)\<close>\<close>

definition r_add :: "'f arith \<Rightarrow> 'f store \<Rightarrow> nat list \<Rightarrow> nat \<Rightarrow> nat \<Rightarrow> 'f row \<Rightarrow> error + 'f row" where
  "r_add ar d L i j r =
     ebind (lookup r i) (\<lambda>ri.
     ebind (get2 d i j) (\<lambda>v.
     ebind (py_div ar v (int (length L) - 2)) (\<lambda>q.
     Inr (r(i \<mapsto> f_add ar ri q)))))"

definition compute_r :: "'f arith \<Rightarrow> 'f store \<Rightarrow> nat list \<Rightarrow> nat \<Rightarrow> error + 'f row" where
  "compute_r ar d L k = for_each [0..<k] (\<lambda>i. for_each L (r_add ar d L i)) (zeros ar k)"

text \<open>\<open>D = {i: {j: 0 for j in L} for i in L}\<close> and \<open>D[i][j] = d[i][j] - (r[i] + r[j])\<close>\<close>

definition D_init :: "'f arith \<Rightarrow> nat list \<Rightarrow> 'f store" where
  "D_init ar L =
     (\<lambda>i. if i \<in> set L then Some (\<lambda>j. if j \<in> set L then Some (f_int ar 0) else None) else None)"

definition D_set :: "'f arith \<Rightarrow> 'f store \<Rightarrow> 'f row \<Rightarrow> nat \<Rightarrow> nat \<Rightarrow> 'f store \<Rightarrow> error + 'f store" where
  "D_set ar d r i j D =
     ebind (get2 d i j) (\<lambda>v.
     ebind (lookup r i) (\<lambda>ri.
     ebind (lookup r j) (\<lambda>rj.
     set2 D i j (f_sub ar v (f_add ar ri rj)))))"

definition compute_D :: "'f arith \<Rightarrow> 'f store \<Rightarrow> 'f row \<Rightarrow> nat list \<Rightarrow> error + 'f store" where
  "compute_D ar d r L = for_each L (\<lambda>i. for_each L (D_set ar d r i)) (D_init ar L)"

text \<open>The search for the pair minimising \<open>D\<close>: state \<open>(min_val, i_min, j_min)\<close>.\<close>

definition min_step :: "'f arith \<Rightarrow> 'f store \<Rightarrow> nat \<Rightarrow> nat \<Rightarrow> 'f \<times> nat \<times> nat \<Rightarrow> error + 'f \<times> nat \<times> nat" where
  "min_step ar D i j m =
     (if i \<noteq> j then
        ebind (get2 D i j) (\<lambda>q.
        if f_less ar q (fst m) then ebind (get2 D i j) (\<lambda>q'. Inr (q', i, j)) else Inr m)
      else Inr m)"

definition find_min :: "'f arith \<Rightarrow> 'f store \<Rightarrow> nat list \<Rightarrow> error + 'f \<times> nat \<times> nat" where
  "find_min ar D L =
     ebind (py_index L 0) (\<lambda>i0.
     ebind (py_index L 1) (\<lambda>j0.
     ebind (get2 D i0 j0) (\<lambda>mv.
     for_each L (\<lambda>i. for_each L (min_step ar D i)) (mv, i0, j0))))"

text \<open>
  The body of \<open>for m in d[k]\<close>:
  \<open>d[k][m] = (1 / 2) * (d[i_min][m] + d[j_min][m] - d[i_min][j_min]); d[m][k] = d[k][m]\<close>
\<close>

definition upd_m :: "'f arith \<Rightarrow> nat \<Rightarrow> nat \<Rightarrow> nat \<Rightarrow> nat \<Rightarrow> 'f store \<Rightarrow> error + 'f store" where
  "upd_m ar i_min j_min k m d =
     ebind (get2 d i_min m) (\<lambda>a.
     ebind (get2 d j_min m) (\<lambda>b.
     ebind (get2 d i_min j_min) (\<lambda>c.
     ebind (set2 d k m (half_of ar (f_sub ar (f_add ar a b) c))) (\<lambda>d1.
     ebind (get2 d1 k m) (\<lambda>v.
     set2 d1 m k v)))))"

text \<open>
  Lines 53 to 65: the new row \<open>d[k] = {i: 0 for i in range(k + 1)}\<close>, the loop over
  its keys, and the two branch lengths
  \<open>d[i_min][k] = (1 / 2) * (d[i_min][j_min] + r[i_min] - r[j_min])\<close>,
  \<open>d[j_min][k] = d[i_min][j_min] - d[i_min][k]\<close>, mirrored, and \<open>d[k][k] = 0\<close>.
\<close>

definition update_d :: "'f arith \<Rightarrow> 'f store \<Rightarrow> 'f row \<Rightarrow> nat \<Rightarrow> nat \<Rightarrow> nat \<Rightarrow> error + 'f store" where
  "update_d ar d r i_min j_min k =
     ebind (for_each [0..<k + 1] (upd_m ar i_min j_min k) (d(k \<mapsto> zeros ar (k + 1)))) (\<lambda>d1.
     ebind (get2 d1 i_min j_min) (\<lambda>c.
     ebind (lookup r i_min) (\<lambda>ri.
     ebind (lookup r j_min) (\<lambda>rj.
     ebind (set2 d1 i_min k (half_of ar (f_sub ar (f_add ar c ri) rj))) (\<lambda>d2.
     ebind (get2 d2 i_min j_min) (\<lambda>c2.
     ebind (get2 d2 i_min k) (\<lambda>x.
     ebind (set2 d2 j_min k (f_sub ar c2 x)) (\<lambda>d3.
     ebind (get2 d3 i_min k) (\<lambda>x3.
     ebind (set2 d3 k i_min x3) (\<lambda>d4.
     ebind (get2 d4 j_min k) (\<lambda>y4.
     ebind (set2 d4 k j_min y4) (\<lambda>d5.
     set2 d5 k k (f_int ar 0)))))))))))))"

text \<open>One iteration of \<open>while(len(L) > 2)\<close>.\<close>

definition nj_step :: "'f arith \<Rightarrow> 'f nj_state \<Rightarrow> error + 'f nj_state" where
  "nj_step ar s =
     ebind (compute_r ar (st_d s) (st_L s) (st_k s)) (\<lambda>r.
     ebind (compute_D ar (st_d s) r (st_L s)) (\<lambda>D.
     ebind (find_min ar D (st_L s)) (\<lambda>m.
     let i_min = fst (snd m); j_min = snd (snd m);
         es = st_edges s @ [(i_min, st_k s)] @ [(j_min, st_k s)] in
     ebind (py_remove i_min (st_L s)) (\<lambda>L1.
     ebind (py_remove j_min L1) (\<lambda>L2.
     ebind (update_d ar (st_d s) r i_min j_min (st_k s)) (\<lambda>d'.
     Inr \<lparr>st_L = L2 @ [st_k s], st_edges = es, st_d = d', st_k = st_k s + 1\<rparr>))))))"

lemma ebind_eq_Inr: "ebind x f = Inr y \<longleftrightarrow> (\<exists>v. x = Inr v \<and> f v = Inr y)"
  by (cases x) auto

lemma ebind_cong [fundef_cong]:
  "x = y \<Longrightarrow> (\<And>v. y = Inr v \<Longrightarrow> f v = g v) \<Longrightarrow> ebind x f = ebind y g"
  by (cases y) auto

lemma py_remove_Inr:
  "py_remove x xs = Inr ys \<longleftrightarrow> x \<in> set xs \<and> ys = remove1 x xs"
  by (auto simp: py_remove_def)

lemma nj_step_length:
  assumes "nj_step ar s = Inr s'"
  shows "Suc (length (st_L s')) = length (st_L s)"
proof -
  from assms obtain i j where
    i: "i \<in> set (st_L s)" and j: "j \<in> set (remove1 i (st_L s))"
    and L: "st_L s' = remove1 j (remove1 i (st_L s)) @ [st_k s]"
    unfolding nj_step_def Let_def by (auto simp: ebind_eq_Inr py_remove_Inr)
  from j have "length (remove1 i (st_L s)) > 0"
    by (cases "remove1 i (st_L s)") auto
  with i j L show ?thesis
    by (simp add: length_remove1)
qed

function nj_loop :: "'f arith \<Rightarrow> 'f nj_state \<Rightarrow> error + 'f nj_state" where
  "nj_loop ar s =
     (if 2 < length (st_L s) then ebind (nj_step ar s) (nj_loop ar) else Inr s)"
  by pat_completeness auto
termination nj_loop
  by (relation "measure (\<lambda>(ar, s). length (st_L s))") (auto dest: nj_step_length)

declare nj_loop.simps [simp del]

text \<open>
  \<open>neighbor_join(d)\<close>: \<open>n = len(d)\<close>, \<open>L = list(range(n))\<close>, \<open>edges = []\<close>, \<open>k = n\<close>,
  the loop, then \<open>edges.append((L[0], L[1]))\<close> and \<open>return edges, d\<close>.
\<close>

definition init_state :: "'f store \<Rightarrow> 'f nj_state" where
  "init_state d =
     (let n = card (dom d) in \<lparr>st_L = [0..<n], st_edges = [], st_d = d, st_k = n\<rparr>)"

definition neighbor_join :: "'f arith \<Rightarrow> 'f store \<Rightarrow> error + (nat \<times> nat) list \<times> 'f store" where
  "neighbor_join ar d =
     ebind (nj_loop ar (init_state d)) (\<lambda>s.
     ebind (py_index (st_L s) 0) (\<lambda>a.
     ebind (py_index (st_L s) 1) (\<lambda>b.
     Inr (st_edges s @ [(a, b)], st_d s))))"

subsection \<open>Root insertion (main, lines 180 to 194)\<close>

text \<open>
  The scan for the longest edge, \<open>if d[i][j] > d_max: d_max = d[i][j]; i_max = i; j_max = j\<close>:
  state \<open>(d_max, i_max, j_max)\<close>, started at \<open>(0, 0, 0)\<close>.
\<close>

definition max_step :: "'f arith \<Rightarrow> 'f store \<Rightarrow> nat \<times> nat \<Rightarrow> 'f \<times> nat \<times> nat \<Rightarrow> error + 'f \<times> nat \<times> nat" where
  "max_step ar d e m =
     ebind (get2 d (fst e) (snd e)) (\<lambda>v.
     if f_less ar (fst m) v then ebind (get2 d (fst e) (snd e)) (\<lambda>w. Inr (w, fst e, snd e))
     else Inr m)"

text \<open>
  \<open>root = len(d)\<close>, \<open>edges.remove((i_max, j_max))\<close>, \<open>edges.append((i_max, root))\<close>,
  \<open>edges.append((j_max, root))\<close>; the result is the root and the edge list.
\<close>

definition insert_root :: "'f arith \<Rightarrow> (nat \<times> nat) list \<Rightarrow> 'f store \<Rightarrow> error + nat \<times> (nat \<times> nat) list" where
  "insert_root ar edges d =
     ebind (for_each edges (max_step ar d) (f_int ar 0, 0, 0)) (\<lambda>m.
     let i_max = fst (snd m); j_max = snd (snd m); root_id = card (dom d) in
     ebind (py_remove (i_max, j_max) edges) (\<lambda>es.
     Inr (root_id, es @ [(i_max, root_id)] @ [(j_max, root_id)])))"

text \<open>Lines 178 to 194 of \<open>main\<close>, from the distance store on.\<close>

definition rooted_edges :: "'f arith \<Rightarrow> 'f store \<Rightarrow> error + nat \<times> (nat \<times> nat) list" where
  "rooted_edges ar d0 = ebind (neighbor_join ar d0) (\<lambda>res. insert_root ar (fst res) (snd res))"

subsection \<open>assemble\_tree\<close>

text \<open>The loop over the edges fills \<open>children\<close> and \<open>new_edges\<close>.\<close>

fun children :: "nat \<Rightarrow> (nat \<times> nat) list \<Rightarrow> nat list" where
  "children root_id [] = []"
| "children root_id ((i, j) # es) =
     (if i = root_id then j # children root_id es
      else if j = root_id then i # children root_id es
      else children root_id es)"

fun new_edges :: "nat \<Rightarrow> (nat \<times> nat) list \<Rightarrow> (nat \<times> nat) list" where
  "new_edges root_id [] = []"
| "new_edges root_id ((i, j) # es) =
     (if i = root_id then new_edges root_id es
      else if j = root_id then new_edges root_id es
      else (i, j) # new_edges root_id es)"

lemma new_edges_le: "length (new_edges root_id es) \<le> length es"
  by (induction es) auto

lemma new_edges_length:
  "child \<in> set (children root_id es) \<Longrightarrow> length (new_edges root_id es) < length es"
proof (induction root_id es rule: children.induct)
  case (1 root_id)
  then show ?case by simp
next
  case (2 root_id i j es)
  have "length (new_edges root_id es) \<le> length es" by (rule new_edges_le)
  with 2 show ?case by (auto split: if_splits)
qed

text \<open>
  \<open>tree_map = {root: children}\<close>, then \<open>tree_map.update(assemble_tree(child, new_edges))\<close>
  for each child in turn: a later entry for a key replaces an earlier one.
\<close>

function assemble_tree :: "nat \<Rightarrow> (nat \<times> nat) list \<Rightarrow> (nat \<rightharpoonup> nat list)" where
  "assemble_tree root_id edges =
     fold (\<lambda>child tree_map. tree_map ++ assemble_tree child (new_edges root_id edges))
       (children root_id edges) [root_id \<mapsto> children root_id edges]"
  by pat_completeness auto
termination assemble_tree
  by (relation "measure (\<lambda>(root_id, edges). length edges)") (auto simp: new_edges_length)

declare assemble_tree.simps [simp del]

subsection \<open>generate\_newick\<close>

text \<open>\<open>str(n)\<close> for a node id: its decimal digits.\<close>

definition digit_char :: "nat \<Rightarrow> char" where
  "digit_char n = char_of (48 + n)"

function str_nat :: "nat \<Rightarrow> string" where
  "str_nat n = (if n < 10 then [digit_char n] else str_nat (n div 10) @ [digit_char (n mod 10)])"
  by pat_completeness auto
termination str_nat
  by (relation "measure id") auto

declare str_nat.simps [simp del]

text \<open>\<open>(i, j) = tree_map[root]\<close>: a list of any other length raises ValueError.\<close>

fun unpack2 :: "'a list \<Rightarrow> error + 'a \<times> 'a" where
  "unpack2 [i, j] = Inr (i, j)"
| "unpack2 cs = Inl ValueError"

text \<open>
  The recursion follows \<open>tree_map\<close>, which may be cyclic; the first argument bounds
  the depth of the calls, as the interpreter's recursion limit does. \<open>mapping\<close> is
  \<open>None\<close> or a dictionary of names.
\<close>

fun generate_newick ::
  "'f arith \<Rightarrow> nat \<Rightarrow> nat \<Rightarrow> (nat \<rightharpoonup> nat list) \<Rightarrow> 'f store \<Rightarrow> (nat \<rightharpoonup> string) option \<Rightarrow> bool
     \<Rightarrow> error + string" where
  "generate_newick ar 0 root_id tree_map d mapping first = Inl RecursionError"
| "generate_newick ar (Suc depth) root_id tree_map d mapping first =
     ebind (lookup tree_map root_id) (\<lambda>cs.
     if cs = [] then
       (case mapping of Some names \<Rightarrow> lookup names root_id | None \<Rightarrow> Inr (str_nat root_id))
     else
       ebind (unpack2 cs) (\<lambda>(i, j).
       ebind (if first then ebind (get2 d i j) (\<lambda>v. Inr (f_div ar v (f_int ar 2)))
              else get2 d root_id i) (\<lambda>i_length.
       ebind (if first then ebind (get2 d i j) (\<lambda>v. Inr (f_div ar v (f_int ar 2)))
              else get2 d root_id j) (\<lambda>j_length.
       ebind (generate_newick ar depth i tree_map d mapping False) (\<lambda>ti.
       ebind (generate_newick ar depth j tree_map d mapping False) (\<lambda>tj.
       let output = ''('' @ ti @ '':'' @ f_fmt6 ar i_length @ '','' @ tj @ '':''
                      @ f_fmt6 ar j_length @ '')''
       in Inr (if first then output @ '';'' else output)))))))"

subsection \<open>Exact arithmetic\<close>

text \<open>
  The rationals, and \<open>"{:.6f}".format(x)\<close> on an exact value: the decimal digits of the
  value rounded to six places, ties to even, as the interpreter's correctly rounded
  conversion gives for the value of a float.
\<close>

definition round_half_even :: "rat \<Rightarrow> int" where
  "round_half_even x =
     (let f = \<lfloor>x\<rfloor>; r = x - of_int f in
      if r < 1 / 2 then f else if 1 / 2 < r then f + 1 else if even f then f else f + 1)"

definition pad6 :: "string \<Rightarrow> string" where
  "pad6 s = replicate (6 - length s) CHR ''0'' @ s"

definition fmt6 :: "rat \<Rightarrow> string" where
  "fmt6 x =
     (let s = nat (round_half_even (\<bar>x\<bar> * 1000000)) in
      (if x < 0 then ''-'' else []) @ str_nat (s div 1000000) @ ''.'' @ pad6 (str_nat (s mod 1000000)))"

definition rat_arith :: "rat arith" where
  "rat_arith = \<lparr>f_add = (+), f_sub = (-), f_mul = (*), f_div = (/), f_less = (<),
                 f_int = of_int, f_fmt6 = fmt6\<rparr>"

subsection \<open>Vocabulary of the properties\<close>

text \<open>The store defines \<open>d[a][b]\<close> for all ids below \<open>k\<close>; the value read there.\<close>

definition covers :: "'f store \<Rightarrow> nat \<Rightarrow> bool" where
  "covers d k \<longleftrightarrow> (\<forall>a<k. \<forall>b<k. \<exists>v. get2 d a b = Inr v)"

definition val :: "'f store \<Rightarrow> nat \<Rightarrow> nat \<Rightarrow> 'f" where
  "val d i j = the (the (d i) j)"

text \<open>
  The divergence \<open>r[i]\<close> as the source accumulates it, from 0 and in the order of \<open>L\<close>,
  and the score \<open>D[i][j] = d[i][j] - (r[i] + r[j])\<close> of a pair.
\<close>

fun racc :: "'f arith \<Rightarrow> 'f store \<Rightarrow> nat list \<Rightarrow> nat \<Rightarrow> nat list \<Rightarrow> 'f \<Rightarrow> 'f" where
  "racc ar d L i [] x = x"
| "racc ar d L i (j # js) x =
     racc ar d L i js (f_add ar x (f_div ar (val d i j) (f_int ar (int (length L) - 2))))"

definition rsum :: "'f arith \<Rightarrow> 'f store \<Rightarrow> nat list \<Rightarrow> nat \<Rightarrow> 'f" where
  "rsum ar d L i = racc ar d L i L (f_int ar 0)"

definition Qv :: "'f arith \<Rightarrow> 'f store \<Rightarrow> nat list \<Rightarrow> nat \<times> nat \<Rightarrow> 'f" where
  "Qv ar d L p = f_sub ar (val d (fst p) (snd p)) (f_add ar (rsum ar d L (fst p)) (rsum ar d L (snd p)))"

text \<open>The pairs the search compares, in the order of the two nested loops.\<close>

definition scan_pairs :: "nat list \<Rightarrow> (nat \<times> nat) list" where
  "scan_pairs L = filter (\<lambda>p. fst p \<noteq> snd p) (List.product L L)"

definition lex_less :: "nat \<times> nat \<Rightarrow> nat \<times> nat \<Rightarrow> bool" where
  "lex_less p q \<longleftrightarrow> fst p < fst q \<or> (fst p = fst q \<and> snd p < snd q)"

text \<open>
  The comparison orders the values as \<open><\<close> orders numbers (values may compare equal
  without being the same; no value is incomparable, as NaN would be).
\<close>

definition weak_order :: "('f \<Rightarrow> 'f \<Rightarrow> bool) \<Rightarrow> bool" where
  "weak_order lt \<longleftrightarrow>
     (\<forall>x. \<not> lt x x) \<and> (\<forall>x y z. lt x y \<longrightarrow> lt y z \<longrightarrow> lt x z) \<and>
     (\<forall>x y z. lt x z \<longrightarrow> lt x y \<or> lt y z)"

text \<open>The states in which the loop condition is evaluated in the run on \<open>d0\<close>.\<close>

inductive nj_reach :: "'f arith \<Rightarrow> 'f store \<Rightarrow> 'f nj_state \<Rightarrow> bool" for ar d0 where
  reach_init: "nj_reach ar d0 (init_state d0)"
| reach_step: "nj_reach ar d0 s \<Longrightarrow> 2 < length (st_L s) \<Longrightarrow> nj_step ar s = Inr s' \<Longrightarrow> nj_reach ar d0 s'"

text \<open>What holds of every such state when the input has \<open>n\<close> leaves.\<close>

definition nj_inv :: "nat \<Rightarrow> 'f nj_state \<Rightarrow> bool" where
  "nj_inv n s \<longleftrightarrow>
     n \<le> st_k s \<and> dom (st_d s) = {0..<st_k s} \<and> covers (st_d s) (st_k s) \<and>
     sorted_wrt (<) (st_L s) \<and> fst ` set (st_edges s) \<subseteq> {0..<st_k s} \<and>
     set (st_L s) = {0..<st_k s} - fst ` set (st_edges s) \<and>
     2 \<le> length (st_L s) \<and> length (st_L s) + (st_k s - n) = n \<and>
     length (st_edges s) = 2 * (st_k s - n) \<and> snd ` set (st_edges s) = {n..<st_k s}"

definition sym_inv :: "'f arith \<Rightarrow> 'f store \<Rightarrow> nat \<Rightarrow> bool" where
  "sym_inv ar d k \<longleftrightarrow>
     (\<forall>a<k. \<forall>b<k. get2 d a b = get2 d b a) \<and> (\<forall>a<k. get2 d a a = Inr (f_int ar 0))"

section \<open>Properties\<close>

subsection \<open>Reading and writing the store\<close>

lemma lookup_Inr: "lookup m key = Inr v \<longleftrightarrow> m key = Some v"
  by (simp add: lookup_def split: option.splits)

lemma get2_Inr: "get2 d i j = Inr v \<longleftrightarrow> (\<exists>r. d i = Some r \<and> r j = Some v)"
  by (auto simp: get2_def ebind_eq_Inr lookup_Inr)

lemma set2_Inr: "set2 d i j v = Inr d' \<longleftrightarrow> (\<exists>r. d i = Some r \<and> d' = d(i \<mapsto> r(j \<mapsto> v)))"
  by (auto simp: set2_def ebind_eq_Inr lookup_Inr)

lemma set2_total: "i \<in> dom d \<Longrightarrow> \<exists>d'. set2 d i j v = Inr d'"
  by (auto simp: set2_Inr)

lemma get2_set2:
  "set2 d i j v = Inr d' \<Longrightarrow> get2 d' a b = (if a = i \<and> b = j then Inr v else get2 d a b)"
  by (auto simp: set2_Inr get2_def lookup_def)

lemma dom_set2: "set2 d i j v = Inr d' \<Longrightarrow> dom d' = dom d"
  by (auto simp: set2_Inr split: if_splits)

lemma get2_new_row:
  "get2 (d(k \<mapsto> zeros ar n)) a b =
     (if a = k then (if b < n then Inr (f_int ar 0) else Inl KeyError) else get2 d a b)"
  by (simp add: get2_def lookup_def zeros_def)

lemma get2_dom: "get2 d i j = Inr v \<Longrightarrow> i \<in> dom d"
  by (auto simp: get2_Inr)

lemma dom_mk_store: "dom (mk_store m) = {0..<length m}"
  by (auto simp: mk_store_def split: if_splits)

lemma get2_mk_store:
  "get2 (mk_store m) i j =
     (if i < length m \<and> j < length (m ! i) then Inr (m ! i ! j) else Inl KeyError)"
  by (simp add: get2_def lookup_def mk_store_def mk_row_def)

subsection \<open>Loops\<close>

lemma for_each_append:
  "for_each (xs @ ys) body s = ebind (for_each xs body s) (for_each ys body)"
proof (induction xs arbitrary: s)
  case Nil
  show ?case by simp
next
  case (Cons x xs)
  show ?case by (cases "body x s") (simp_all add: Cons.IH)
qed

lemma for_each_map: "for_each (map g xs) body s = for_each xs (\<lambda>x. body (g x)) s"
proof (induction xs arbitrary: s)
  case Nil
  show ?case by simp
next
  case (Cons x xs)
  show ?case by (cases "body (g x) s") (simp_all add: Cons.IH)
qed

lemma for_each_product:
  "for_each xs (\<lambda>i. for_each ys (f i)) s =
   for_each (List.product xs ys) (\<lambda>p. f (fst p) (snd p)) s"
proof (induction xs arbitrary: s)
  case Nil
  show ?case by simp
next
  case (Cons x xs)
  show ?case
    by (cases "for_each ys (f x) s") (simp_all add: for_each_append for_each_map Cons.IH)
qed

text \<open>
  An invariant indexed by the part of the list already visited: it holds of the empty
  part and every iteration, run in a state where it holds, returns and extends it.
\<close>

lemma for_each_rule_aux:
  assumes "I pre s"
    and "\<And>p x q s. pre @ xs = p @ x # q \<Longrightarrow> length pre \<le> length p \<Longrightarrow> I p s \<Longrightarrow>
           \<exists>s'. body x s = Inr s' \<and> I (p @ [x]) s'"
  shows "\<exists>s'. for_each xs body s = Inr s' \<and> I (pre @ xs) s'"
  using assms
proof (induction xs arbitrary: pre s)
  case Nil
  then show ?case by simp
next
  case (Cons x xs)
  from Cons.prems(2)[of pre x xs s] Cons.prems(1)
  obtain s1 where s1: "body x s = Inr s1" "I (pre @ [x]) s1" by auto
  have "\<exists>s'. for_each xs body s1 = Inr s' \<and> I ((pre @ [x]) @ xs) s'"
  proof (rule Cons.IH[OF s1(2)])
    fix p y q t
    assume "(pre @ [x]) @ xs = p @ y # q" "length (pre @ [x]) \<le> length p" "I p t"
    then show "\<exists>s'. body y t = Inr s' \<and> I (p @ [y]) s'"
      using Cons.prems(2)[of p y q t] by simp
  qed
  with s1 show ?case by simp
qed

lemma for_each_rule:
  assumes "I [] s"
    and "\<And>p x q s. xs = p @ x # q \<Longrightarrow> I p s \<Longrightarrow> \<exists>s'. body x s = Inr s' \<and> I (p @ [x]) s'"
  shows "\<exists>s'. for_each xs body s = Inr s' \<and> I xs s'"
  using for_each_rule_aux[of I "[]" s xs body] assms by simp

text \<open>A quantity no iteration changes is unchanged by a loop that returns.\<close>

lemma for_each_unchanged:
  assumes "for_each xs body s = Inr s'"
    and "\<And>x t t'. x \<in> set xs \<Longrightarrow> body x t = Inr t' \<Longrightarrow> f t' = f t"
  shows "f s' = f s"
  using assms
proof (induction xs arbitrary: s)
  case Nil
  then show ?case by simp
next
  case (Cons x xs)
  from Cons.prems(1) obtain s1 where s1: "body x s = Inr s1" "for_each xs body s1 = Inr s'"
    by (auto simp: ebind_eq_Inr)
  have "f s' = f s1"
  proof (rule Cons.IH[OF s1(2)])
    fix y t t'
    assume "y \<in> set xs" "body y t = Inr t'"
    then show "f t' = f t" using Cons.prems(2)[of y t t'] by simp
  qed
  moreover have "f s1 = f s" using Cons.prems(2)[of x s s1] s1(1) by simp
  ultimately show ?case by simp
qed

subsection \<open>What an iteration writes\<close>

lemma upd_m_frame:
  assumes "upd_m ar i_min j_min k m d = Inr d'" and "a \<noteq> k" and "b \<noteq> k"
  shows "get2 d' a b = get2 d a b"
proof -
  from assms(1) obtain v w d1 where
    d1: "set2 d k m v = Inr d1" and d': "set2 d1 m k w = Inr d'"
    unfolding upd_m_def by (auto simp: ebind_eq_Inr)
  show ?thesis using get2_set2[OF d1, of a b] get2_set2[OF d', of a b] assms(2,3) by simp
qed

lemma update_d_frame:
  assumes "update_d ar d r i_min j_min k = Inr d'" and "a \<noteq> k" and "b \<noteq> k"
  shows "get2 d' a b = get2 d a b"
proof -
  from assms(1) obtain d1 d2 d3 d4 d5 v2 v3 v4 v5 where
    l: "for_each [0..<k + 1] (upd_m ar i_min j_min k) (d(k \<mapsto> zeros ar (k + 1))) = Inr d1"
    and s2: "set2 d1 i_min k v2 = Inr d2" and s3: "set2 d2 j_min k v3 = Inr d3"
    and s4: "set2 d3 k i_min v4 = Inr d4" and s5: "set2 d4 k j_min v5 = Inr d5"
    and s6: "set2 d5 k k (f_int ar 0) = Inr d'"
    unfolding update_d_def by (auto simp: ebind_eq_Inr)
  have "get2 d1 a b = get2 (d(k \<mapsto> zeros ar (k + 1))) a b"
    by (rule for_each_unchanged[OF l]) (rule upd_m_frame[OF _ assms(2,3)])
  then have "get2 d1 a b = get2 d a b" using assms(2) by (simp add: get2_new_row)
  then show ?thesis
    using get2_set2[OF s2, of a b] get2_set2[OF s3, of a b] get2_set2[OF s4, of a b]
      get2_set2[OF s5, of a b] get2_set2[OF s6, of a b] assms(2,3) by simp
qed

lemma nj_step_k: "nj_step ar s = Inr s' \<Longrightarrow> st_k s' = st_k s + 1"
  unfolding nj_step_def Let_def by (auto simp: ebind_eq_Inr)

lemma nj_step_frame:
  assumes "nj_step ar s = Inr s'" and "a \<noteq> st_k s" and "b \<noteq> st_k s"
  shows "get2 (st_d s') a b = get2 (st_d s) a b"
proof -
  from assms(1) obtain r i j where "update_d ar (st_d s) r i j (st_k s) = Inr (st_d s')"
    unfolding nj_step_def Let_def by (auto simp: ebind_eq_Inr)
  then show ?thesis by (rule update_d_frame) (rule assms(2), rule assms(3))
qed

lemma nj_loop_frame:
  "nj_loop ar s = Inr s' \<Longrightarrow> a < st_k s \<Longrightarrow> b < st_k s \<Longrightarrow>
   get2 (st_d s') a b = get2 (st_d s) a b"
proof (induction ar s rule: nj_loop.induct)
  case (1 ar s)
  show ?case
  proof (cases "2 < length (st_L s)")
    case False
    with 1(2) show ?thesis by (simp add: nj_loop.simps)
  next
    case True
    with 1(2) obtain s1 where s1: "nj_step ar s = Inr s1" "nj_loop ar s1 = Inr s'"
      by (auto simp: nj_loop.simps[of ar s] ebind_eq_Inr)
    have k1: "st_k s1 = st_k s + 1" by (rule nj_step_k[OF s1(1)])
    have "get2 (st_d s') a b = get2 (st_d s1) a b"
      using "1.IH"[OF True s1(1) s1(2)] "1.prems"(2,3) k1 by simp
    moreover have "get2 (st_d s1) a b = get2 (st_d s) a b"
      using nj_step_frame[OF s1(1), of a b] "1.prems"(2,3) by simp
    ultimately show ?thesis by simp
  qed
qed

lemma neighbor_join_frame:
  assumes "neighbor_join ar d = Inr (es, d')" and "a < card (dom d)" and "b < card (dom d)"
  shows "get2 d' a b = get2 d a b"
proof -
  from assms(1) obtain s where s: "nj_loop ar (init_state d) = Inr s" and d': "d' = st_d s"
    unfolding neighbor_join_def by (auto simp: ebind_eq_Inr)
  show ?thesis
    using nj_loop_frame[OF s, of a b] assms(2,3) d' by (simp add: init_state_def Let_def)
qed

subsection \<open>The divergences and the scores\<close>

lemma covers_get2: "covers d k \<Longrightarrow> a < k \<Longrightarrow> b < k \<Longrightarrow> get2 d a b = Inr (val d a b)"
proof -
  assume "covers d k" "a < k" "b < k"
  then obtain v where "get2 d a b = Inr v" unfolding covers_def by blast
  then show ?thesis by (auto simp: val_def get2_Inr)
qed

lemma r_add_loop:
  assumes "\<forall>j\<in>set js. get2 d i j = Inr (val d i j)" and "length L \<noteq> 2" and "r i = Some x"
  shows "for_each js (r_add ar d L i) r = Inr (r(i \<mapsto> racc ar d L i js x))"
  using assms
proof (induction js arbitrary: r x)
  case Nil
  then show ?case by (simp add: fun_upd_idem)
next
  case (Cons j js)
  let ?q = "f_add ar x (f_div ar (val d i j) (f_int ar (int (length L) - 2)))"
  have step: "r_add ar d L i j r = Inr (r(i \<mapsto> ?q))"
    using Cons.prems by (simp add: r_add_def lookup_def py_div_def)
  have "for_each js (r_add ar d L i) (r(i \<mapsto> ?q)) =
        Inr ((r(i \<mapsto> ?q))(i \<mapsto> racc ar d L i js ?q))"
    by (rule Cons.IH) (use Cons.prems in auto)
  with step show ?case by (simp; simp add: fun_upd_def)
qed

lemma compute_r_ok:
  assumes "covers d k" and "set L \<subseteq> {0..<k}" and "length L \<noteq> 2"
  shows "compute_r ar d L k = Inr (\<lambda>a. if a < k then Some (rsum ar d L a) else None)"
proof -
  let ?I = "\<lambda>p r. \<forall>a. r a = (if a < k then Some (if a \<in> set p then rsum ar d L a else f_int ar 0) else None)"
  have "\<exists>r. for_each [0..<k] (\<lambda>i. for_each L (r_add ar d L i)) (zeros ar k) = Inr r \<and> ?I [0..<k] r"
  proof (rule for_each_rule)
    show "?I [] (zeros ar k)" by (simp add: zeros_def)
  next
    fix p x q and r :: "'a row"
    assume split: "[0..<k] = p @ x # q" and I: "?I p r"
    have "x \<in> set [0..<k]" by (simp add: split)
    then have xk: "x < k" by simp
    have "distinct (p @ x # q)" using split distinct_upt[of 0 k] by simp
    then have xp: "x \<notin> set p" by simp
    have rx: "r x = Some (f_int ar 0)" using I xk xp by simp
    have g: "\<forall>j\<in>set L. get2 d x j = Inr (val d x j)"
      using assms(1,2) xk by (auto intro!: covers_get2)
    have "for_each L (r_add ar d L x) r = Inr (r(x \<mapsto> rsum ar d L x))"
      unfolding rsum_def
      using r_add_loop[where js = L and d = d and i = x and L = L and r = r
          and x = "f_int ar 0" and ar = ar] g assms(3) rx by blast
    moreover have "?I (p @ [x]) (r(x \<mapsto> rsum ar d L x))" using I xk by auto
    ultimately show "\<exists>s'. for_each L (r_add ar d L x) r = Inr s' \<and> ?I (p @ [x]) s'" by blast
  qed
  then obtain r where r: "compute_r ar d L k = Inr r" and I: "?I [0..<k] r"
    unfolding compute_r_def by blast
  have "r = (\<lambda>a. if a < k then Some (rsum ar d L a) else None)"
    using I by (intro ext) simp
  with r show ?thesis by simp
qed

lemma get2_D_init:
  "i \<in> set L \<Longrightarrow> j \<in> set L \<Longrightarrow> get2 (D_init ar L) i j = Inr (f_int ar 0)"
  by (simp add: get2_def lookup_def D_init_def)

lemma compute_D_ok:
  assumes "covers d k" and "set L \<subseteq> {0..<k}"
    and r: "r = (\<lambda>a. if a < k then Some (rsum ar d L a) else None)"
  shows "\<exists>D. compute_D ar d r L = Inr D \<and>
           (\<forall>i\<in>set L. \<forall>j\<in>set L. get2 D i j = Inr (Qv ar d L (i, j)))"
proof -
  let ?I = "\<lambda>p D. \<forall>i\<in>set L. \<forall>j\<in>set L.
              \<exists>v. get2 D i j = Inr v \<and> ((i, j) \<in> set p \<longrightarrow> v = Qv ar d L (i, j))"
  let ?body = "\<lambda>p. D_set ar d r (fst p) (snd p)"
  have "\<exists>D. for_each (List.product L L) ?body (D_init ar L) = Inr D \<and> ?I (List.product L L) D"
  proof (rule for_each_rule[where I = ?I and body = ?body and xs = "List.product L L"])
    show "?I [] (D_init ar L)" by (simp add: get2_D_init)
  next
    fix p x q and D :: "'a store"
    assume split: "List.product L L = p @ x # q" and I: "?I p D"
    have "x \<in> set (List.product L L)" by (simp add: split)
    then have xL: "fst x \<in> set L" "snd x \<in> set L" by auto
    with assms(2) have xk: "fst x < k" "snd x < k" by auto
    have g: "get2 d (fst x) (snd x) = Inr (val d (fst x) (snd x))"
      by (rule covers_get2[OF assms(1) xk])
    have eq: "D_set ar d r (fst x) (snd x) D = set2 D (fst x) (snd x) (Qv ar d L x)"
      using g xk by (simp add: D_set_def r lookup_def Qv_def)
    from I[rule_format, OF xL] obtain v where "get2 D (fst x) (snd x) = Inr v" by (elim exE conjE)
    then have "fst x \<in> dom D" by (rule get2_dom)
    then have "\<exists>D'. set2 D (fst x) (snd x) (Qv ar d L x) = Inr D'" by (rule set2_total)
    then obtain D' where D': "set2 D (fst x) (snd x) (Qv ar d L x) = Inr D'" by (elim exE)
    have "?I (p @ [x]) D'"
    proof (intro ballI)
      fix i j
      assume ij: "i \<in> set L" "j \<in> set L"
      from I[rule_format, OF ij] obtain v where
        v: "get2 D i j = Inr v" "(i, j) \<in> set p \<longrightarrow> v = Qv ar d L (i, j)"
        by (elim exE conjE)
      show "\<exists>v. get2 D' i j = Inr v \<and> ((i, j) \<in> set (p @ [x]) \<longrightarrow> v = Qv ar d L (i, j))"
      proof (cases "(i, j) = x")
        case True
        then show ?thesis using get2_set2[OF D', of i j] by auto
      next
        case False
        then have "get2 D' i j = get2 D i j" using get2_set2[OF D', of i j] by auto
        with v False show ?thesis by auto
      qed
    qed
    with eq D' show "\<exists>s'. ?body x D = Inr s' \<and> ?I (p @ [x]) s'"
      by (intro exI[of _ D'] conjI) simp_all
  qed
  then obtain D where D: "compute_D ar d r L = Inr D" and I: "?I (List.product L L) D"
    unfolding compute_D_def for_each_product by (elim exE conjE)
  have "\<forall>i\<in>set L. \<forall>j\<in>set L. get2 D i j = Inr (Qv ar d L (i, j))"
  proof (intro ballI)
    fix i j
    assume ij: "i \<in> set L" "j \<in> set L"
    from I[rule_format, OF ij] obtain v where
      "get2 D i j = Inr v" "(i, j) \<in> set (List.product L L) \<longrightarrow> v = Qv ar d L (i, j)"
      by (elim exE conjE)
    with ij show "get2 D i j = Inr (Qv ar d L (i, j))" by simp
  qed
  with D show ?thesis by (intro exI[of _ D] conjI)
qed

subsection \<open>The search for the minimum\<close>

lemma min_step_eval:
  assumes "fst p \<noteq> snd p \<longrightarrow> get2 D (fst p) (snd p) = Inr (Q p)"
  shows "min_step ar D (fst p) (snd p) m =
         Inr (if fst p \<noteq> snd p \<and> f_less ar (Q p) (fst m) then (Q p, p) else m)"
  using assms by (simp add: min_step_def)

lemma min_scan:
  assumes D: "\<forall>p\<in>set ps. fst p \<noteq> snd p \<longrightarrow> get2 D (fst p) (snd p) = Inr (Q p)"
  shows "\<exists>p ps1 ps2.
           for_each ps (\<lambda>p. min_step ar D (fst p) (snd p)) (Q p0, p0) = Inr (Q p, p) \<and>
           p0 # filter (\<lambda>p. fst p \<noteq> snd p) ps = ps1 @ p # ps2 \<and>
           (weak_order (f_less ar) \<longrightarrow> (\<forall>q\<in>set ps1. f_less ar (Q p) (Q q))) \<and>
           (\<forall>q\<in>set ps2. \<not> f_less ar (Q q) (Q p))"
  using D
proof (induction ps rule: rev_induct)
  case Nil
  have "p0 # filter (\<lambda>p. fst p \<noteq> snd p) [] = [] @ p0 # []" by simp
  then show ?case by fastforce
next
  case (snoc x ps)
  from snoc obtain p ps1 ps2 where
    run: "for_each ps (\<lambda>p. min_step ar D (fst p) (snd p)) (Q p0, p0) = Inr (Q p, p)"
    and dec: "p0 # filter (\<lambda>p. fst p \<noteq> snd p) ps = ps1 @ p # ps2"
    and lo: "weak_order (f_less ar) \<longrightarrow> (\<forall>q\<in>set ps1. f_less ar (Q p) (Q q))"
    and hi: "\<forall>q\<in>set ps2. \<not> f_less ar (Q q) (Q p)"
    by auto
  have gx: "fst x \<noteq> snd x \<longrightarrow> get2 D (fst x) (snd x) = Inr (Q x)" using snoc.prems by simp
  have run': "for_each (ps @ [x]) (\<lambda>p. min_step ar D (fst p) (snd p)) (Q p0, p0) =
        Inr (if fst x \<noteq> snd x \<and> f_less ar (Q x) (Q p) then (Q x, x) else (Q p, p))"
    using min_step_eval[where p = x and D = D and Q = Q and ar = ar and m = "(Q p, p)"] gx
    by (simp add: for_each_append run)
  show ?case
  proof (cases "fst x \<noteq> snd x \<and> f_less ar (Q x) (Q p)")
    case True
    have d': "p0 # filter (\<lambda>p. fst p \<noteq> snd p) (ps @ [x]) = (ps1 @ p # ps2) @ x # []"
      using dec True by simp
    have lo': "weak_order (f_less ar) \<longrightarrow> (\<forall>q\<in>set (ps1 @ p # ps2). f_less ar (Q x) (Q q))"
    proof (intro impI ballI)
      fix q
      assume wo: "weak_order (f_less ar)" and q: "q \<in> set (ps1 @ p # ps2)"
      from wo have tr: "\<And>a b c. f_less ar a b \<Longrightarrow> f_less ar b c \<Longrightarrow> f_less ar a c"
        and nt: "\<And>a b c. f_less ar a c \<Longrightarrow> f_less ar a b \<or> f_less ar b c"
        unfolding weak_order_def by blast+
      from q consider "q \<in> set ps1" | "q = p" | "q \<in> set ps2" by auto
      then show "f_less ar (Q x) (Q q)"
      proof cases
        case 1
        with lo wo have "f_less ar (Q p) (Q q)" by simp
        with True show ?thesis using tr by blast
      next
        case 2
        with True show ?thesis by simp
      next
        case 3
        with hi have "\<not> f_less ar (Q q) (Q p)" by simp
        with True nt[of "Q x" "Q p" "Q q"] show ?thesis by blast
      qed
    qed
    from run' True d' lo' show ?thesis
      by (intro exI[of _ x] exI[of _ "ps1 @ p # ps2"] exI[of _ "[]"]) simp
  next
    case False
    have d': "p0 # filter (\<lambda>p. fst p \<noteq> snd p) (ps @ [x]) =
          ps1 @ p # (ps2 @ (if fst x \<noteq> snd x then [x] else []))"
      using dec by simp
    have hi': "\<forall>q\<in>set (ps2 @ (if fst x \<noteq> snd x then [x] else [])). \<not> f_less ar (Q q) (Q p)"
      using hi False by auto
    from run' False d' lo hi' show ?thesis
      by (intro exI[of _ p] exI[of _ ps1] exI[of _ "ps2 @ (if fst x \<noteq> snd x then [x] else [])"])
         simp
  qed
qed

subsection \<open>Inputs of fewer than three leaves\<close>

lemma neighbor_join_mk_store:
  "neighbor_join ar (mk_store m) =
     ebind (nj_loop ar \<lparr>st_L = [0..<length m], st_edges = [], st_d = mk_store m, st_k = length m\<rparr>) (\<lambda>s.
     ebind (py_index (st_L s) 0) (\<lambda>a.
     ebind (py_index (st_L s) 1) (\<lambda>b.
     Inr (st_edges s @ [(a, b)], st_d s))))"
  by (simp add: neighbor_join_def init_state_def dom_mk_store Let_def)

lemma nj_loop_small: "\<not> 2 < length (st_L s) \<Longrightarrow> nj_loop ar s = Inr s"
  by (simp add: nj_loop.simps)

lemma nj_loop_init_small: "card (dom d) < 3 \<Longrightarrow> nj_loop ar (init_state d) = Inr (init_state d)"
  by (rule nj_loop_small) (simp add: init_state_def Let_def)

lemma nj_small:
  assumes "card (dom d) < 3"
  shows "neighbor_join ar d = (if card (dom d) = 2 then Inr ([(0, 1)], d) else Inl IndexError)"
proof -
  have "card (dom d) = 0 \<or> card (dom d) = 1 \<or> card (dom d) = 2" using assms by arith
  then show ?thesis
    by (auto simp: neighbor_join_def init_state_def nj_loop_small py_index_def numeral_2_eq_2 upt_rec)
qed

lemma termination_edge_small:
  assumes "card (dom d) < 3"
  shows "ebind (py_index (st_L (init_state d)) 0) (\<lambda>a.
           ebind (py_index (st_L (init_state d)) 1) (\<lambda>b. Inr (a, b)))
         = (if card (dom d) = 2 then Inr (0, 1) else Inl IndexError)"
proof -
  have "card (dom d) = 0 \<or> card (dom d) = 1 \<or> card (dom d) = 2" using assms by arith
  then show ?thesis
    by (auto simp: init_state_def py_index_def numeral_2_eq_2 upt_rec)
qed

text \<open>
  C5 (as amended). For an input of fewer than two leaves the reducer fails with an
  error, IndexError, and the reduction loop is not entered: the loop returns the state
  it was started in, and the read of \<open>(L[0], L[1])\<close> after it raises. An input of
  exactly two leaves is not rejected: the loop is not entered either, and the single
  edge \<open>(0, 1)\<close> is returned with the store as it was passed.
\<close>

theorem neighbor_join_fewer_than_three:
  "card (dom d) < 3 \<Longrightarrow>
   nj_loop ar (init_state d) = Inr (init_state d) \<and>
   ebind (py_index (st_L (init_state d)) 0) (\<lambda>a.
     ebind (py_index (st_L (init_state d)) 1) (\<lambda>b. Inr (a, b)))
     = (if card (dom d) = 2 then Inr (0, 1) else Inl IndexError) \<and>
   neighbor_join ar d = (if card (dom d) = 2 then Inr ([(0, 1)], d) else Inl IndexError)"
  using nj_loop_init_small [of d ar] termination_edge_small [of d] nj_small [of d ar]
  by simp

theorem neighbor_join_fewer_than_three_witness:
  "card (dom (mk_store [[0::rat]])) < 3 \<and>
   nj_loop rat_arith (init_state (mk_store [[0]])) = Inr (init_state (mk_store [[0]])) \<and>
   neighbor_join rat_arith (mk_store [[0]]) = Inl IndexError"
  using neighbor_join_fewer_than_three [of "mk_store [[0::rat]]" rat_arith]
  by (simp add: dom_mk_store)

text \<open>
  C5 as stated fails: a store of two leaves is an input of fewer than three leaves,
  and the reducer returns on it.
\<close>

theorem two_leaves_not_rejected:
  "card (dom (mk_store [[0::rat, 3], [3, 0]])) < 3 \<and>
   neighbor_join rat_arith (mk_store [[0, 3], [3, 0]]) = Inr ([(0, 1)], mk_store [[0, 3], [3, 0]])"
  using nj_small [of "mk_store [[0::rat, 3], [3, 0]]" rat_arith] by (simp add: dom_mk_store)

text \<open>
  C6. On a store over the ids 0 and 1 the loop returns the state it was started in (no
  merge iteration runs), no error is raised, and the result is the single edge
  \<open>(0, 1)\<close> with the store as it was passed.
\<close>

theorem neighbor_join_two_leaves:
  "dom d = {0, 1} \<Longrightarrow>
   nj_loop ar (init_state d) = Inr (init_state d) \<and> neighbor_join ar d = Inr ([(0, 1)], d)"
proof -
  assume d: "dom d = {0, 1}"
  then have c: "card (dom d) = 2" by simp
  have "nj_loop ar (init_state d) = Inr (init_state d)"
    by (rule nj_loop_init_small) (simp add: c)
  moreover have "neighbor_join ar d = Inr ([(0, 1)], d)"
    using nj_small [of d ar] c by simp
  ultimately show ?thesis by simp
qed

theorem neighbor_join_two_leaves_witness:
  "dom (mk_store [[0::rat, 7], [7, 0]]) = {0, 1} \<and>
   neighbor_join rat_arith (mk_store [[0, 7], [7, 0]]) = Inr ([(0, 1)], mk_store [[0, 7], [7, 0]])"
proof -
  have h: "dom (mk_store [[0::rat, 7], [7, 0]]) = {0, 1}"
    by (auto simp: dom_mk_store)
  from neighbor_join_two_leaves [OF h, of rat_arith] h show ?thesis by simp
qed

subsection \<open>The two close pairs\<close>

text \<open>
  C8. Four leaves with \<open>D[0][1] = 1\<close>, \<open>D[2][3] = 1\<close> and every cross distance 10:
  0 and 1 are joined into node 4, 2 and 3 into node 5, and the edge list is exactly
  \<open>[(0,4), (1,4), (2,5), (3,5), (4,5)]\<close>. Every value that arises is a multiple of
  \<open>1/2\<close>, so the exact arithmetic is the arithmetic of the floats here.
\<close>

theorem neighbor_join_two_close_pairs:
  "map_sum id fst
     (neighbor_join rat_arith
        (mk_store [[0, 1, 10, 10], [1, 0, 10, 10], [10, 10, 0, 1], [10, 10, 1, 0]]))
   = Inr [(0, 4), (1, 4), (2, 5), (3, 5), (4, 5)]"
  unfolding neighbor_join_mk_store by code_simp

end
